theory Spec2Isabelle
  imports Main
begin

unbundle bit_operations_syntax

section \<open>Watchers and the dispatch queue (dasync.h)\<close>

text \<open>
  The three values an event handler returns, and the tag every watcher carries.
\<close>

datatype Rearm = REARM | DISARM | REMOVE

datatype WatchType = SIGNAL | FD | CHILD

text \<open>
  A watcher is referred to by its address.  The record holds the fields of
  \<^verbatim>\<open>BaseWatcher\<close> followed by those its three subclasses add: \<open>siginfo_signo\<close> is the
  signal number of \<^verbatim>\<open>BaseSignalWatcher::siginfo\<close> (the only part of the signal
  information the loop reads), \<open>watch_fd\<close>, \<open>watch_flags\<close> and \<open>event_flags\<close> belong to
  \<^verbatim>\<open>BaseFdWatcher\<close>, \<open>watch_pid\<close> and \<open>child_status\<close> to \<^verbatim>\<open>BaseChildWatcher\<close>.  The
  field \<open>wnext\<close> is the \<^verbatim>\<open>next\<close> pointer; \<open>None\<close> is the null pointer.
\<close>

type_synonym wref = nat

record BaseWatcher =
  watchType :: WatchType
  active :: bool
  deleteme :: bool
  wnext :: "wref option"
  siginfo_signo :: int
  watch_fd :: int
  watch_flags :: int
  event_flags :: int
  watch_pid :: int
  child_status :: int

text \<open>
  What the loop does to the outside is recorded as a trace of calls: taking and
  releasing the dispatch lock, the virtual functions of a watcher, and the functions
  of the backend \<^verbatim>\<open>loop_mech\<close> (whose class is not part of these sources, so a call to
  it is only recorded).  \<open>Signal n\<close> is \<^verbatim>\<open>signal()\<close> on the wait node \<open>n\<close>.
\<close>

type_synonym nref = nat

datatype event =
    Lock
  | Unlock
  | WatchRemoved wref
  | GotSignal wref int
  | GotEvent wref int int
  | GotTermStat wref int int
  | RearmSignalWatch_nolock int
  | RemoveSignalWatch_nolock int
  | EnableFdWatch_nolock int wref int
  | RemoveFdWatch_nolock int
  | RemoveSignalWatch int
  | PullEvents bool
  | Signal nref

text \<open>
  \<^verbatim>\<open>EventDispatch\<close>: the memory of the watchers, the head \<^verbatim>\<open>first\<close> of the queue of
  pending notifications, and the trace so far.  \<open>live\<close> is the set of addresses at which
  a watcher is allocated.  Watchers are allocated and freed by the user; the sources
  hold no statement that does either, so nothing below writes \<open>live\<close>.
\<close>

record EventDispatch =
  heap :: "wref \<Rightarrow> BaseWatcher"
  first :: "wref option"
  trace :: "event list"
  live :: "wref set"

text \<open>An event the backend hands over through one of the \<^verbatim>\<open>receive\<close> functions.\<close>

datatype delivery =
    Signal_for wref int
  | FdEvent_for wref int
  | ChildStat_for wref int

text \<open>
  Everything the loop does not decide itself: what the handlers of the user return,
  for which watchers a call of \<^verbatim>\<open>deregisterSignal\<close> runs to completion while the handler
  of a watcher executes (called by the handler or by another thread; the dispatch lock
  is free during that window), and which events a call of the backend's \<^verbatim>\<open>pullEvents\<close>
  delivers.  Each may depend on the state at the time, which includes the trace.
  Events that another thread's poll would deliver in the middle of a pass are not
  part of the model: a pass sees the queue as it was detached.
\<close>

record env =
  gotSignal :: "EventDispatch \<Rightarrow> wref \<Rightarrow> int \<Rightarrow> Rearm"
  gotEvent :: "EventDispatch \<Rightarrow> wref \<Rightarrow> int \<Rightarrow> int \<Rightarrow> Rearm"
  meanwhile :: "EventDispatch \<Rightarrow> wref \<Rightarrow> wref list"
  pulled :: "EventDispatch \<Rightarrow> delivery list"

definition emit :: "event \<Rightarrow> EventDispatch \<Rightarrow> EventDispatch" where
  "emit e ed = ed\<lparr>trace := trace ed @ [e]\<rparr>"

definition upd :: "wref \<Rightarrow> (BaseWatcher \<Rightarrow> BaseWatcher) \<Rightarrow> EventDispatch \<Rightarrow> EventDispatch" where
  "upd w f ed = ed\<lparr>heap := (heap ed)(w := f (heap ed w))\<rparr>"

text \<open>
  \<^verbatim>\<open>BaseWatcher::watchRemoved\<close>: the body is empty (the \<^verbatim>\<open>delete this\<close> in it, which
  would take the watcher out of \<open>live\<close>, is commented out).  The call itself is recorded.
\<close>

definition watchRemoved :: "wref \<Rightarrow> EventDispatch \<Rightarrow> EventDispatch" where
  "watchRemoved w ed = emit (WatchRemoved w) ed"

text \<open>The three \<^verbatim>\<open>receive\<close> functions: store the payload, mark active, prepend.\<close>

definition receiveSignal :: "int \<Rightarrow> wref \<Rightarrow> EventDispatch \<Rightarrow> EventDispatch" where
  "receiveSignal siginfo bwatcher ed =
     (let ed1 = upd bwatcher (\<lambda>b. b\<lparr>siginfo_signo := siginfo\<rparr>) ed;
          ed2 = upd bwatcher (\<lambda>b. b\<lparr>active := True\<rparr>) ed1;
          prev_first = first ed2;
          ed3 = ed2\<lparr>first := Some bwatcher\<rparr>
      in upd bwatcher (\<lambda>b. b\<lparr>wnext := prev_first\<rparr>) ed3)"

definition receiveFdEvent :: "wref \<Rightarrow> int \<Rightarrow> EventDispatch \<Rightarrow> EventDispatch" where
  "receiveFdEvent bwatcher flags ed =
     (let ed1 = upd bwatcher (\<lambda>b. b\<lparr>event_flags := flags\<rparr>) ed;
          ed2 = upd bwatcher (\<lambda>b. b\<lparr>active := True\<rparr>) ed1;
          prev_first = first ed2;
          ed3 = ed2\<lparr>first := Some bwatcher\<rparr>
      in upd bwatcher (\<lambda>b. b\<lparr>wnext := prev_first\<rparr>) ed3)"

definition receiveChildStat :: "int \<Rightarrow> wref \<Rightarrow> EventDispatch \<Rightarrow> EventDispatch" where
  "receiveChildStat status watcher ed =
     (let ed1 = upd watcher (\<lambda>b. b\<lparr>child_status := status\<rparr>) ed;
          ed2 = upd watcher (\<lambda>b. b\<lparr>active := True\<rparr>) ed1;
          prev_first = first ed2;
          ed3 = ed2\<lparr>first := Some watcher\<rparr>
      in upd watcher (\<lambda>b. b\<lparr>wnext := prev_first\<rparr>) ed3)"

text \<open>\<^verbatim>\<open>issueDelete\<close>, between \<^verbatim>\<open>lock.lock()\<close> and \<^verbatim>\<open>lock.unlock()\<close>.\<close>

definition issueDelete :: "wref \<Rightarrow> EventDispatch \<Rightarrow> EventDispatch" where
  "issueDelete watcher ed =
     (let ed1 = emit Lock ed;
          ed2 = (if active (heap ed1 watcher)
                 then upd watcher (\<lambda>b. b\<lparr>deleteme := True\<rparr>) ed1
                 else watchRemoved watcher ed1)
      in emit Unlock ed2)"

text \<open>
  What a completed call \<^verbatim>\<open>deregisterSignal(callBack, signo)\<close> does to the dispatch object:
  \<^verbatim>\<open>removeSignalWatch(signo)\<close> of the backend, then \<^verbatim>\<open>issueDelete(callBack)\<close>.  The
  attention lock it holds around \<^verbatim>\<open>issueDelete\<close> lives in the wait queues of the loop and
  leaves no mark here; \<^verbatim>\<open>signo\<close> is the signal number stored in the watcher, as
  \<^verbatim>\<open>PosixSignalWatcher::deregisterWatch\<close> passes it.  This is the one caller of
  \<^verbatim>\<open>issueDelete\<close> in the sources, and its parameter is a \<^verbatim>\<open>BaseSignalWatcher*\<close>: a watcher of
  another kind cannot be its argument, so a reference to one stands for no call.
\<close>

definition deregistered :: "wref \<Rightarrow> EventDispatch \<Rightarrow> EventDispatch" where
  "deregistered callBack ed =
     (if watchType (heap ed callBack) = SIGNAL
      then issueDelete callBack
             (emit (RemoveSignalWatch (siginfo_signo (heap ed callBack))) ed)
      else ed)"

subsection \<open>processEvents\<close>

definition processSignalRearm :: "wref \<Rightarrow> Rearm \<Rightarrow> EventDispatch \<Rightarrow> EventDispatch" where
  "processSignalRearm bsw rearmType ed =
     (if rearmType = REARM
      then emit (RearmSignalWatch_nolock (siginfo_signo (heap ed bsw))) ed
      else if rearmType = REMOVE
      then emit (RemoveSignalWatch_nolock (siginfo_signo (heap ed bsw))) ed
      else ed)"

definition processFdRearm :: "wref \<Rightarrow> Rearm \<Rightarrow> EventDispatch \<Rightarrow> EventDispatch" where
  "processFdRearm bfw rearmType ed =
     (if rearmType = REARM
      then emit (EnableFdWatch_nolock (watch_fd (heap ed bfw)) bfw (watch_flags (heap ed bfw))) ed
      else if rearmType = REMOVE
      then emit (RemoveFdWatch_nolock (watch_fd (heap ed bfw))) ed
      else ed)"

text \<open>
  The first loop of \<^verbatim>\<open>processEvents\<close>, which runs with the lock held.  Its variables
  are \<open>q\<close>, \<open>prev\<close>, \<open>pqueue\<close> and \<open>active\<close>; the source never assigns \<open>prev\<close> after its
  initialisation, and neither does the loop here.  A queue that is cyclic keeps the
  loop running forever: the result is then \<open>None\<close>.
\<close>

partial_function (option) scan_pending ::
  "wref option \<Rightarrow> wref option \<Rightarrow> wref option \<Rightarrow> bool \<Rightarrow> EventDispatch
     \<Rightarrow> (wref option \<times> bool \<times> EventDispatch) option" where
  "scan_pending q prev pqueue act ed =
     (case q of
        None \<Rightarrow> Some (pqueue, act, ed)
      | Some p \<Rightarrow>
          if deleteme (heap ed p) then
            (let ed1 = watchRemoved p ed in
             case prev of
               Some pr \<Rightarrow>
                 (let ed2 = upd pr (\<lambda>b. b\<lparr>wnext := wnext (heap ed1 p)\<rparr>) ed1
                  in scan_pending (wnext (heap ed2 p)) prev pqueue act ed2)
             | None \<Rightarrow> scan_pending (wnext (heap ed1 p)) prev (wnext (heap ed1 p)) act ed1)
          else
            (let ed1 = upd p (\<lambda>b. b\<lparr>active := True\<rparr>) ed
             in scan_pending (wnext (heap ed1 p)) prev pqueue True ed1))"

text \<open>The first \<^verbatim>\<open>switch\<close>: the handler chosen by the tag, and what it returns.\<close>

definition call_handler :: "env \<Rightarrow> wref \<Rightarrow> EventDispatch \<Rightarrow> Rearm \<times> EventDispatch" where
  "call_handler E p ed =
     (let w = heap ed p in
      case watchType w of
        SIGNAL \<Rightarrow> (gotSignal E ed p (siginfo_signo w), emit (GotSignal p (siginfo_signo w)) ed)
      | FD \<Rightarrow> (gotEvent E ed p (watch_fd w) (event_flags w),
                emit (GotEvent p (watch_fd w) (event_flags w)) ed)
      | CHILD \<Rightarrow> (REMOVE, emit (GotTermStat p (watch_pid w) (child_status w)) ed))"

text \<open>
  The part of the second loop's body that runs with the lock held again, from
  \<^verbatim>\<open>ed.lock.lock()\<close> to \<^verbatim>\<open>ed.lock.unlock()\<close>.
\<close>

definition post_handler :: "wref \<Rightarrow> Rearm \<Rightarrow> EventDispatch \<Rightarrow> EventDispatch" where
  "post_handler p rearmType0 ed =
     (let ed1 = emit Lock ed;
          ed2 = upd p (\<lambda>b. b\<lparr>active := False\<rparr>) ed1;
          rearmType = (if deleteme (heap ed2 p) then REMOVE else rearmType0);
          ed3 = (case watchType (heap ed2 p) of
                   SIGNAL \<Rightarrow> processSignalRearm p rearmType ed2
                 | FD \<Rightarrow> processFdRearm p rearmType ed2
                 | CHILD \<Rightarrow> ed2);
          ed4 = (if rearmType = REMOVE then watchRemoved p ed3 else ed3)
      in emit Unlock ed4)"

text \<open>
  One turn of the second loop for the watcher \<open>p\<close> at the head of \<open>pqueue\<close>: the
  handler, whatever deregistrations complete before the lock is taken again, and the
  locked part.
\<close>

definition dispatch_one :: "env \<Rightarrow> wref \<Rightarrow> EventDispatch \<Rightarrow> EventDispatch" where
  "dispatch_one E p ed =
     (let (rearmType, ed1) = call_handler E p ed;
          ed2 = fold deregistered (meanwhile E ed p) ed1
      in post_handler p rearmType ed2)"

partial_function (option) dispatch_queue ::
  "env \<Rightarrow> wref option \<Rightarrow> EventDispatch \<Rightarrow> EventDispatch option" where
  "dispatch_queue E pqueue ed =
     (case pqueue of
        None \<Rightarrow> Some ed
      | Some p \<Rightarrow>
          (let ed1 = dispatch_one E p ed
           in dispatch_queue E (wnext (heap ed1 p)) ed1))"

definition processEvents :: "env \<Rightarrow> EventDispatch \<Rightarrow> (bool \<times> EventDispatch) option" where
  "processEvents E ed =
     (let ed1 = emit Lock ed;
          pqueue = first ed1;
          ed2 = ed1\<lparr>first := None\<rparr>
      in case scan_pending pqueue None pqueue False ed2 of
           None \<Rightarrow> None
         | Some (pqueue', act, ed3) \<Rightarrow>
             (case dispatch_queue E pqueue' (emit Unlock ed3) of
                None \<Rightarrow> None
              | Some ed4 \<Rightarrow> Some (act, ed4)))"

subsection \<open>The wait queues and run\<close>

text \<open>
  A \<^verbatim>\<open>waitqueue\<close> is two pointers to wait nodes; the \<^verbatim>\<open>next\<close> field of every wait node
  is kept in a store of its own, \<open>qnext\<close> of the loop.  The functions below are the
  member functions as written: \<^verbatim>\<open>queue\<close> assigns \<^verbatim>\<open>tail->next\<close> or \<^verbatim>\<open>head\<close> and nothing
  else, \<^verbatim>\<open>unqueue\<close> reads \<^verbatim>\<open>head->next\<close>, which has no meaning when \<^verbatim>\<open>head\<close> is null.
\<close>

datatype fault = Null_dereference

record waitqueue =
  tail :: "nref option"
  head :: "nref option"

type_synonym nodes = "nref \<Rightarrow> nref option"

definition unqueue :: "waitqueue \<Rightarrow> nodes \<Rightarrow> fault + (nref option \<times> waitqueue)" where
  "unqueue wq nx =
     (case head wq of
        None \<Rightarrow> Inl Null_dereference
      | Some h \<Rightarrow> Inr (nx h, wq\<lparr>head := nx h\<rparr>))"

definition getHead :: "waitqueue \<Rightarrow> nref option" where
  "getHead wq = head wq"

definition queue :: "nref \<Rightarrow> waitqueue \<Rightarrow> nodes \<Rightarrow> waitqueue \<times> nodes" where
  "queue node wq nx =
     (case tail wq of
        Some t \<Rightarrow> (wq, nx(t := Some node))
      | None \<Rightarrow> (wq\<lparr>head := Some node\<rparr>, nx))"

record EventLoop =
  loop_mech :: EventDispatch
  attn_waitqueue :: waitqueue
  wait_waitqueue :: waitqueue
  qnext :: nodes

text \<open>
  \<^verbatim>\<open>getPollwaitLock\<close>.  The model follows one thread: when the node is not the head of
  the attention queue after it was queued, no one is left to change that, the
  \<^verbatim>\<open>while\<close> loop around \<^verbatim>\<open>qnode.wait\<close> does not end, and the result is \<open>None\<close>.
\<close>

definition getPollwaitLock :: "nref \<Rightarrow> EventLoop \<Rightarrow> EventLoop option" where
  "getPollwaitLock qnode L =
     (let L1 = (if getHead (attn_waitqueue L) = None
                then (let (wq, nx) = queue qnode (attn_waitqueue L) (qnext L)
                      in L\<lparr>attn_waitqueue := wq, qnext := nx\<rparr>)
                else (let (wq, nx) = queue qnode (wait_waitqueue L) (qnext L)
                      in L\<lparr>wait_waitqueue := wq, qnext := nx\<rparr>))
      in if getHead (attn_waitqueue L1) \<noteq> Some qnode then None else Some L1)"

definition releaseLock :: "nref \<Rightarrow> EventLoop \<Rightarrow> fault + EventLoop" where
  "releaseLock qnode L =
     (case unqueue (attn_waitqueue L) (qnext L) of
        Inl f \<Rightarrow> Inl f
      | Inr (nhead, wq) \<Rightarrow>
          (let L1 = L\<lparr>attn_waitqueue := wq\<rparr> in
           case nhead of
             Some n \<Rightarrow> Inr (L1\<lparr>loop_mech := emit (Signal n) (loop_mech L1)\<rparr>)
           | None \<Rightarrow>
               (case getHead (wait_waitqueue L1) of
                  Some n \<Rightarrow>
                    (let (wq', nx) = queue n (attn_waitqueue L1) (qnext L1)
                     in Inr (L1\<lparr>attn_waitqueue := wq', qnext := nx,
                                 loop_mech := emit (Signal n) (loop_mech L1)\<rparr>))
                | None \<Rightarrow> Inr L1)))"

definition deliver :: "delivery \<Rightarrow> EventDispatch \<Rightarrow> EventDispatch" where
  "deliver d ed =
     (case d of
        Signal_for w siginfo \<Rightarrow> receiveSignal siginfo w ed
      | FdEvent_for w flags \<Rightarrow> receiveFdEvent w flags ed
      | ChildStat_for w status \<Rightarrow> receiveChildStat status w ed)"

text \<open>
  Modelled from the spec: \<^verbatim>\<open>pullEvents\<close> of the backend \<^verbatim>\<open>loop_mech\<close>, whose class
  (\<^verbatim>\<open>EpollLoop\<close>, from a header that is not among the sources) is missing.  It delivers
  the events that are ready by calling back into the dispatch queue through the
  \<^verbatim>\<open>receive\<close> functions above; which events are ready is up to the environment.
\<close>

definition pullEvents :: "env \<Rightarrow> bool \<Rightarrow> EventDispatch \<Rightarrow> EventDispatch" where
  "pullEvents E do_wait ed =
     (let ed1 = emit (PullEvents do_wait) ed
      in fold deliver (pulled E ed1) ed1)"

text \<open>
  One turn of the body of the loop in \<^verbatim>\<open>run\<close>: a wait node \<open>qnode\<close> is constructed (its
  \<^verbatim>\<open>next\<close> null), the poll lock taken, the backend polled, the lock released.
\<close>

definition poll_once :: "env \<Rightarrow> nref \<Rightarrow> EventLoop \<Rightarrow> (fault + EventLoop) option" where
  "poll_once E qnode L =
     (let L1 = L\<lparr>qnext := (qnext L)(qnode := None)\<rparr> in
      case getPollwaitLock qnode L1 of
        None \<Rightarrow> None
      | Some L2 \<Rightarrow>
          (let L3 = L2\<lparr>loop_mech := pullEvents E True (loop_mech L2)\<rparr>
           in Some (releaseLock qnode L3)))"

text \<open>
  \<^verbatim>\<open>run\<close>: \<^verbatim>\<open>while (! processEvents()) { ... }\<close>.  \<open>None\<close> stands for a call that does
  not return.
\<close>

partial_function (option) run :: "env \<Rightarrow> nref \<Rightarrow> EventLoop \<Rightarrow> (fault + EventLoop) option" where
  "run E qnode L =
     (case processEvents E (loop_mech L) of
        None \<Rightarrow> None
      | Some (act, ed) \<Rightarrow>
          if act then Some (Inr (L\<lparr>loop_mech := ed\<rparr>))
          else
            (case poll_once E qnode (L\<lparr>loop_mech := ed\<rparr>) of
               None \<Rightarrow> None
             | Some (Inl f) \<Rightarrow> Some (Inl f)
             | Some (Inr L') \<Rightarrow> run E qnode L'))"

section \<open>The pselect backend (dasynq-select.h)\<close>

text \<open>
  User data is a pointer, \<open>None\<close> when null.  File descriptors and signal numbers are
  natural numbers: a negative descriptor, or one beyond \<^verbatim>\<open>FD_SETSIZE\<close>, has no defined
  meaning in \<^verbatim>\<open>FD_SET\<close> and is not modelled.  An \<^verbatim>\<open>fd_set\<close> and a \<^verbatim>\<open>sigset_t\<close> are sets.
  The calls the backend makes on its base class and on the lock are recorded in
  \<open>calls\<close>: the base class is not part of these sources.
\<close>

type_synonym userdata = "nat option"

datatype sel_call =
    Lock_guard
  | Unlock_guard
  | Receive_signal nat userdata
  | Receive_fd_event nat userdata int
  | Pselect bool

record select_events =
  read_set :: "nat set"
  write_set :: "nat set"
  max_fd :: nat
  active_sigmask :: "nat set"
  sig_userdata :: "nat \<Rightarrow> userdata"
  rd_udata :: "userdata list"
  wr_udata :: "userdata list"
  calls :: "sel_call list"

datatype failure = Bad_alloc

text \<open>
  \<^verbatim>\<open>std::vector::resize\<close>: whether memory for \<open>n\<close> elements can be had is the
  environment's to say (\<open>can_alloc\<close>); when it cannot, \<^verbatim>\<open>std::bad_alloc\<close> is thrown and
  the vector is as before.  New elements are null.
\<close>

definition resize :: "(nat \<Rightarrow> bool) \<Rightarrow> nat \<Rightarrow> userdata list \<Rightarrow> failure + userdata list" where
  "resize can_alloc n v =
     (if n \<le> length v then Inr (take n v)
      else if can_alloc n then Inr (v @ replicate (n - length v) None)
      else Inl Bad_alloc)"

text \<open>
  \<^verbatim>\<open>add_fd_watch\<close>.  The result pairs what the caller gets (the value returned, or the
  exception) with the object as the call leaves it.  \<open>IN_EVENTS\<close> is a constant of a
  header that is not among the sources and is a parameter; \<open>enabled\<close> and \<open>soft_fail\<close> are
  parameters the body never reads.
\<close>

definition add_fd_watch ::
  "(nat \<Rightarrow> bool) \<Rightarrow> int \<Rightarrow> nat \<Rightarrow> userdata \<Rightarrow> int \<Rightarrow> bool \<Rightarrow> bool \<Rightarrow> select_events
     \<Rightarrow> (failure + bool) \<times> select_events" where
  "add_fd_watch can_alloc IN_EVENTS fd udata flags enabled soft_fail s =
     (if flags AND IN_EVENTS \<noteq> 0 then
        (let s1 = s\<lparr>read_set := insert fd (read_set s)\<rparr> in
         case (if fd \<ge> length (rd_udata s1) then resize can_alloc (fd + 1) (rd_udata s1)
               else Inr (rd_udata s1)) of
           Inl e \<Rightarrow> (Inl e, s1)
         | Inr v \<Rightarrow>
             (let s2 = s1\<lparr>rd_udata := v[fd := udata]\<rparr>;
                  s3 = s2\<lparr>max_fd := max fd (max_fd s2)\<rparr>
              in (Inr True, s3)))
      else
        (let s1 = s\<lparr>write_set := insert fd (write_set s)\<rparr> in
         case (if fd \<ge> length (wr_udata s1) then resize can_alloc (fd + 1) (wr_udata s1)
               else Inr (wr_udata s1)) of
           Inl e \<Rightarrow> (Inl e, s1)
         | Inr v \<Rightarrow>
             (let s2 = s1\<lparr>wr_udata := v[fd := udata]\<rparr>;
                  s3 = s2\<lparr>max_fd := max fd (max_fd s2)\<rparr>
              in (Inr True, s3))))"

definition called :: "sel_call \<Rightarrow> select_events \<Rightarrow> select_events" where
  "called c s = s\<lparr>calls := calls s @ [c]\<rparr>"

text \<open>
  Reading a user data vector at an index: beyond the end \<^verbatim>\<open>operator[]\<close> has no defined
  result; the model reads null there.
\<close>

definition udata_at :: "userdata list \<Rightarrow> nat \<Rightarrow> userdata" where
  "udata_at v i = (if i < length v then v ! i else None)"

text \<open>
  \<^verbatim>\<open>process_events\<close> of the backend: under a \<^verbatim>\<open>lock_guard\<close>, the two loops over
  \<open>0 .. max_fd\<close>.
\<close>

definition report_read :: "int \<Rightarrow> nat set \<Rightarrow> nat set \<Rightarrow> nat \<Rightarrow> select_events \<Rightarrow> select_events" where
  "report_read IN_EVENTS read_set_p error_set_p i s =
     (if i \<in> read_set_p \<or> i \<in> error_set_p
      then (called (Receive_fd_event i (udata_at (rd_udata s) i) IN_EVENTS) s)
             \<lparr>read_set := read_set s - {i}\<rparr>
      else s)"

definition report_write :: "int \<Rightarrow> nat set \<Rightarrow> nat set \<Rightarrow> nat \<Rightarrow> select_events \<Rightarrow> select_events" where
  "report_write OUT_EVENTS write_set_p error_set_p i s =
     (if i \<in> write_set_p \<or> i \<in> error_set_p
      then (called (Receive_fd_event i (udata_at (wr_udata s) i) OUT_EVENTS) s)
             \<lparr>write_set := write_set s - {i}\<rparr>
      else s)"

definition process_events ::
  "int \<Rightarrow> int \<Rightarrow> nat set \<Rightarrow> nat set \<Rightarrow> nat set \<Rightarrow> select_events \<Rightarrow> select_events" where
  "process_events IN_EVENTS OUT_EVENTS read_set_p write_set_p error_set_p s =
     (let s1 = called Lock_guard s;
          s2 = fold (report_read IN_EVENTS read_set_p error_set_p) [0 ..< Suc (max_fd s1)] s1;
          s3 = fold (report_write OUT_EVENTS write_set_p error_set_p) [0 ..< Suc (max_fd s2)] s2
      in called Unlock_guard s3)"

text \<open>
  What a call of \<^verbatim>\<open>pselect\<close> inside \<^verbatim>\<open>pull_events\<close> comes to: a watched signal arrives,
  its handler stores the signal information and jumps back to the \<^verbatim>\<open>sigsetjmp\<close>; or
  \<^verbatim>\<open>pselect\<close> returns \<open>r\<close> and the three descriptor sets.
\<close>

datatype pselect_outcome =
    Interrupted nat
  | Returned int "nat set" "nat set" "nat set"

text \<open>
  \<^verbatim>\<open>pull_events\<close> from the \<^verbatim>\<open>sigsetjmp\<close> on, given the outcomes of the successive calls of
  \<^verbatim>\<open>pselect\<close> (the signal mask handed to \<^verbatim>\<open>pselect\<close> is local and left out).  After a
  jump the branch of the \<^verbatim>\<open>sigsetjmp\<close> runs, \<^verbatim>\<open>do_wait\<close> becomes false and \<^verbatim>\<open>pselect\<close> is
  called again.  \<open>signal_result\<close> is what \<^verbatim>\<open>Base::receive_signal\<close> returns.  With no
  outcome left \<^verbatim>\<open>pselect\<close> does not return: \<open>None\<close>.
\<close>

fun pull_events ::
  "(nat \<Rightarrow> bool) \<Rightarrow> int \<Rightarrow> int \<Rightarrow> pselect_outcome list \<Rightarrow> bool \<Rightarrow> select_events
     \<Rightarrow> select_events option" where
  "pull_events signal_result IN_EVENTS OUT_EVENTS [] do_wait s = None"
| "pull_events signal_result IN_EVENTS OUT_EVENTS (Returned r rd wr er # rest) do_wait s =
     (let s1 = called (Pselect do_wait) s in
      if r = - 1 \<or> r = 0 then Some s1
      else Some (process_events IN_EVENTS OUT_EVENTS rd wr er s1))"
| "pull_events signal_result IN_EVENTS OUT_EVENTS (Interrupted signo # rest) do_wait s =
     (let s1 = called (Pselect do_wait) s;
          udata = sig_userdata s1 signo;
          s2 = (if udata \<noteq> None
                then (let s' = called (Receive_signal signo udata) s1 in
                      if signal_result signo
                      then s'\<lparr>active_sigmask := insert signo (active_sigmask s')\<rparr>
                      else s')
                else s1)
      in pull_events signal_result IN_EVENTS OUT_EVENTS rest False s2)"

text \<open>
  Whether every \<^verbatim>\<open>receive\<close> call of a sequence of calls is made with the lock held;
  \<open>held\<close> says whether it is held at the start.
\<close>

fun receives_locked :: "bool \<Rightarrow> sel_call list \<Rightarrow> bool" where
  "receives_locked held [] = True"
| "receives_locked held (Lock_guard # cs) = receives_locked True cs"
| "receives_locked held (Unlock_guard # cs) = receives_locked False cs"
| "receives_locked held (Receive_signal signo u # cs) = (held \<and> receives_locked held cs)"
| "receives_locked held (Receive_fd_event fd u flags # cs) = (held \<and> receives_locked held cs)"
| "receives_locked held (Pselect w # cs) = receives_locked held cs"

text \<open>The constructor, and \<^verbatim>\<open>add_signal_watch\<close> with its \<^verbatim>\<open>_nolock\<close> sibling.\<close>

definition select_events_init :: select_events where
  "select_events_init =
     \<lparr>read_set = {}, write_set = {}, max_fd = 0, active_sigmask = UNIV,
      sig_userdata = (\<lambda>signo. None), rd_udata = [], wr_udata = [], calls = []\<rparr>"

definition add_signal_watch_nolock :: "nat \<Rightarrow> userdata \<Rightarrow> select_events \<Rightarrow> select_events" where
  "add_signal_watch_nolock signo udata s =
     s\<lparr>sig_userdata := (sig_userdata s)(signo := udata),
       active_sigmask := active_sigmask s - {signo}\<rparr>"

definition add_signal_watch :: "nat \<Rightarrow> userdata \<Rightarrow> select_events \<Rightarrow> select_events" where
  "add_signal_watch signo udata s =
     called Unlock_guard (add_signal_watch_nolock signo udata (called Lock_guard s))"

section \<open>The pending queue as a list\<close>

text \<open>
  \<open>wlist h q xs\<close>: following the \<^verbatim>\<open>next\<close> pointers from \<open>q\<close> in the memory \<open>h\<close> visits the
  watchers \<open>xs\<close> in this order and then reaches the null pointer.
\<close>

fun wlist :: "(wref \<Rightarrow> BaseWatcher) \<Rightarrow> wref option \<Rightarrow> wref list \<Rightarrow> bool" where
  "wlist h q [] = (q = None)"
| "wlist h q (x # xs) = (q = Some x \<and> wlist h (wnext (h x)) xs)"

text \<open>
  The first loop of \<^verbatim>\<open>processEvents\<close> once more, by recursion over the list of watchers
  it visits instead of over the pointers (with \<open>prev\<close> null, as it always is).
\<close>

primrec scan_list :: "wref list \<Rightarrow> wref option \<Rightarrow> bool \<Rightarrow> EventDispatch
     \<Rightarrow> wref option \<times> bool \<times> EventDispatch" where
  "scan_list [] pqueue act ed = (pqueue, act, ed)"
| "scan_list (x # xs) pqueue act ed =
     (if deleteme (heap ed x)
      then scan_list xs (wnext (heap ed x)) act (watchRemoved x ed)
      else scan_list xs pqueue True (upd x (\<lambda>b. b\<lparr>active := True\<rparr>) ed))"

text \<open>
  The list \<open>pqueue\<close> points to when the first loop has visited \<open>xs\<close>, if it pointed to
  \<open>ys\<close> before: each watcher marked for deletion makes \<open>pqueue\<close> point to what follows it.
  \<open>dispatched h xs\<close> is therefore the list the second loop walks.
\<close>

primrec after_deleted :: "(wref \<Rightarrow> BaseWatcher) \<Rightarrow> wref list \<Rightarrow> wref list \<Rightarrow> wref list" where
  "after_deleted h [] ys = ys"
| "after_deleted h (x # xs) ys =
     (if deleteme (h x) then after_deleted h xs xs else after_deleted h xs ys)"

definition dispatched :: "(wref \<Rightarrow> BaseWatcher) \<Rightarrow> wref list \<Rightarrow> wref list" where
  "dispatched h xs = after_deleted h xs xs"

text \<open>A watcher without its two flags: what no function of the loop changes.\<close>

definition static :: "BaseWatcher \<Rightarrow> BaseWatcher" where
  "static b = b\<lparr>active := False, deleteme := False\<rparr>"

text \<open>The events that are calls of a virtual function of the watcher \<open>c\<close>.\<close>

fun concerns :: "wref \<Rightarrow> event \<Rightarrow> bool" where
  "concerns c (WatchRemoved w) = (w = c)"
| "concerns c (GotSignal w signo) = (w = c)"
| "concerns c (GotEvent w fd flags) = (w = c)"
| "concerns c (GotTermStat w pid status) = (w = c)"
| "concerns c e = False"

section \<open>Example states\<close>

text \<open>
  A watcher as its constructor leaves it (the fields of the subclasses, which the
  constructors do not initialise, are zero here), a loop with nothing registered (a
  signal watcher is allocated at every address), and
  an environment in which signal handlers return \<^verbatim>\<open>DISARM\<close>, descriptor handlers return
  \<^verbatim>\<open>REARM\<close>, nothing is deregistered meanwhile and the backend has no event.
\<close>

definition new_watcher :: "WatchType \<Rightarrow> BaseWatcher" where
  "new_watcher wt =
     \<lparr>watchType = wt, active = False, deleteme = False, wnext = None, siginfo_signo = 0,
      watch_fd = 0, watch_flags = 0, event_flags = 0, watch_pid = 0, child_status = 0\<rparr>"

definition no_events :: EventDispatch where
  "no_events = \<lparr>heap = (\<lambda>w. new_watcher SIGNAL), first = None, trace = [], live = UNIV\<rparr>"

definition quiet :: env where
  "quiet = \<lparr>gotSignal = (\<lambda>ed w signo. DISARM), gotEvent = (\<lambda>ed w fd flags. REARM),
            meanwhile = (\<lambda>ed w. []), pulled = (\<lambda>ed. [])\<rparr>"

text \<open>
  The backend delivers signal 12 for watcher 2 and then signal 10 for watcher 1; before
  the next pass watcher 2 is deregistered.
\<close>

definition two_signals :: EventDispatch where
  "two_signals = issueDelete 2 (receiveSignal 10 1 (receiveSignal 12 2 no_events))"

text \<open>A pass followed by the deregistration of \<open>w\<close> and another pass; and one more pass.\<close>

definition then_deregister_and_pass ::
  "env \<Rightarrow> wref \<Rightarrow> (bool \<times> EventDispatch) option \<Rightarrow> (bool \<times> EventDispatch) option" where
  "then_deregister_and_pass E w r =
     (case r of None \<Rightarrow> None | Some (act, ed) \<Rightarrow> processEvents E (issueDelete w ed))"

definition then_pass :: "env \<Rightarrow> (bool \<times> EventDispatch) option \<Rightarrow> (bool \<times> EventDispatch) option" where
  "then_pass E r = (case r of None \<Rightarrow> None | Some (act, ed) \<Rightarrow> processEvents E ed)"

definition empty_waitqueue :: waitqueue where
  "empty_waitqueue = \<lparr>tail = None, head = None\<rparr>"

definition idle_loop :: EventLoop where
  "idle_loop = \<lparr>loop_mech = no_events, attn_waitqueue = empty_waitqueue,
                wait_waitqueue = empty_waitqueue, qnext = (\<lambda>n. None)\<rparr>"

text \<open>An environment whose backend delivers signal 10 for watcher 1 at every poll.\<close>

definition one_signal :: env where
  "one_signal = quiet\<lparr>pulled := (\<lambda>ed. [Signal_for 1 10])\<rparr>"

text \<open>A loop in which signal 10 is pending for watcher 1.\<close>

definition pending_loop :: EventLoop where
  "pending_loop = idle_loop\<lparr>loop_mech := receiveSignal 10 1 no_events\<rparr>"

text \<open>
  An environment in which \<^verbatim>\<open>deregisterSignal\<close> is called on the signal watcher 1 while
  the handler of any other watcher runs, and environments whose handlers return
  \<^verbatim>\<open>REMOVE\<close> and whose descriptor handlers return \<^verbatim>\<open>DISARM\<close>.
\<close>

definition deregistering :: env where
  "deregistering = quiet\<lparr>meanwhile := (\<lambda>ed w. if w = 1 then [] else [1])\<rparr>"

definition removing :: env where
  "removing = quiet\<lparr>gotSignal := (\<lambda>ed w signo. REMOVE), gotEvent := (\<lambda>ed w fd flags. REMOVE)\<rparr>"

definition disarming :: env where
  "disarming = quiet\<lparr>gotEvent := (\<lambda>ed w fd flags. DISARM)\<rparr>"

text \<open>
  A descriptor watcher 4 on descriptor 5 with flags 1, for which an event with flags 1
  is pending, queued in front of a signal watcher 1 with signal 10 pending.
\<close>

definition fd_and_signal :: EventDispatch where
  "fd_and_signal =
     receiveFdEvent 4 1
       (receiveSignal 10 1
          (no_events\<lparr>heap := (heap no_events)(4 := (new_watcher FD)\<lparr>watch_fd := 5, watch_flags := 1\<rparr>)\<rparr>))"


text \<open>The state in which the pass over \<open>pending_loop\<close> ends.\<close>

definition after_signal :: EventDispatch where
  "after_signal =
     \<lparr>heap = (\<lambda>w. new_watcher SIGNAL)(1 := (new_watcher SIGNAL)\<lparr>siginfo_signo := 10\<rparr>),
      first = None, trace = [Lock, Unlock, GotSignal 1 10, Lock, Unlock], live = UNIV\<rparr>"

section \<open>Basic facts\<close>

lemma heap_emit [simp]: "heap (emit e ed) = heap ed"
  by (simp add: emit_def)

lemma first_emit [simp]: "first (emit e ed) = first ed"
  by (simp add: emit_def)

lemma trace_emit [simp]: "trace (emit e ed) = trace ed @ [e]"
  by (simp add: emit_def)

lemma heap_upd [simp]: "heap (upd w f ed) = (heap ed)(w := f (heap ed w))"
  by (simp add: upd_def)

lemma first_upd [simp]: "first (upd w f ed) = first ed"
  by (simp add: upd_def)

lemma trace_upd [simp]: "trace (upd w f ed) = trace ed"
  by (simp add: upd_def)

lemma live_emit [simp]: "live (emit e ed) = live ed"
  by (simp add: emit_def)

lemma live_upd [simp]: "live (upd w f ed) = live ed"
  by (simp add: upd_def)

lemma live_watchRemoved [simp]: "live (watchRemoved w ed) = live ed"
  by (simp add: watchRemoved_def)

lemma heap_watchRemoved [simp]: "heap (watchRemoved w ed) = heap ed"
  by (simp add: watchRemoved_def)

lemma first_watchRemoved [simp]: "first (watchRemoved w ed) = first ed"
  by (simp add: watchRemoved_def)

lemma trace_watchRemoved [simp]: "trace (watchRemoved w ed) = trace ed @ [WatchRemoved w]"
  by (simp add: watchRemoved_def)

lemma static_fields [simp]:
  "wnext (static b) = wnext b" "watchType (static b) = watchType b"
  "watch_pid (static b) = watch_pid b" "child_status (static b) = child_status b"
  "watch_fd (static b) = watch_fd b" "watch_flags (static b) = watch_flags b"
  "event_flags (static b) = event_flags b" "siginfo_signo (static b) = siginfo_signo b"
  by (simp_all add: static_def)

lemma static_flag_update [simp]:
  "static (b\<lparr>active := a\<rparr>) = static b" "static (b\<lparr>deleteme := d\<rparr>) = static b"
  by (simp_all add: static_def)

subsection \<open>Null-terminated lists of watchers\<close>

lemma wlist_same_next:
  "(\<And>w. wnext (h' w) = wnext (h w)) \<Longrightarrow> wlist h' q xs = wlist h q xs"
  by (induction xs arbitrary: q) auto





subsection \<open>The first loop on a proper list\<close>

lemma scan_pending_list:
  "wlist (heap ed) q xs \<Longrightarrow> scan_pending q None pqueue act ed = Some (scan_list xs pqueue act ed)"
proof (induction xs arbitrary: q pqueue act ed)
  case Nil
  then show ?case by (subst scan_pending.simps) simp
next
  case (Cons x xs)
  from Cons.prems have q: "q = Some x" and tl: "wlist (heap ed) (wnext (heap ed x)) xs"
    by simp_all
  show ?case
  proof (cases "deleteme (heap ed x)")
    case True
    have "wlist (heap (watchRemoved x ed)) (wnext (heap (watchRemoved x ed) x)) xs"
      using tl by simp
    from Cons.IH [OF this] True q show ?thesis
      by (subst scan_pending.simps) (simp add: Let_def)
  next
    case False
    let ?ed1 = "upd x (\<lambda>b. b\<lparr>active := True\<rparr>) ed"
    have "wlist (heap ?ed1) (wnext (heap ?ed1 x)) xs = wlist (heap ed) (wnext (heap ed x)) xs"
      by (subst wlist_same_next [where h = "heap ed"]) simp_all
    with tl have "wlist (heap ?ed1) (wnext (heap ?ed1 x)) xs" by simp
    from Cons.IH [OF this] False q show ?thesis
      by (subst scan_pending.simps) (simp add: Let_def)
  qed
qed

lemma after_deleted_cong:
  "(\<And>w. deleteme (h' w) = deleteme (h w)) \<Longrightarrow> after_deleted h' xs ys = after_deleted h xs ys"
  by (induction xs arbitrary: ys) simp_all

lemma scan_list_wlist:
  "wlist (heap ed) q xs \<Longrightarrow> wlist (heap ed) pq ys \<Longrightarrow>
   wlist (heap (snd (snd (scan_list xs pq act ed)))) (fst (scan_list xs pq act ed))
     (after_deleted (heap ed) xs ys)"
proof (induction xs arbitrary: q pq ys act ed)
  case Nil
  then show ?case by simp
next
  case (Cons x xs)
  from Cons.prems have tl: "wlist (heap ed) (wnext (heap ed x)) xs" by simp
  show ?case
  proof (cases "deleteme (heap ed x)")
    case True
    from Cons.IH [of "watchRemoved x ed" "wnext (heap ed x)" "wnext (heap ed x)" xs act] tl True
    show ?thesis by simp
  next
    case False
    let ?ed1 = "upd x (\<lambda>b. b\<lparr>active := True\<rparr>) ed"
    have same: "wlist (heap ?ed1) r zs = wlist (heap ed) r zs" for r zs
      by (rule wlist_same_next) simp
    have del: "after_deleted (heap ?ed1) xs ys = after_deleted (heap ed) xs ys"
      by (rule after_deleted_cong) simp
    from Cons.IH [of ?ed1 "wnext (heap ed x)" pq ys True] tl Cons.prems(2) False
    show ?thesis by (simp only: same del scan_list.simps after_deleted.simps if_False)
  qed
qed


lemma static_scan_list:
  "static (heap (snd (snd (scan_list xs pq act ed))) w) = static (heap ed w)"
  by (induction xs arbitrary: pq act ed) simp_all

lemma after_deleted_clean:
  "x \<in> set (after_deleted h xs ys) \<Longrightarrow> deleteme (h x) \<Longrightarrow> x \<in> set ys \<and> x \<notin> set xs"
  by (induction xs arbitrary: ys) (auto split: if_splits)

lemma dispatched_clean: "x \<in> set (dispatched h xs) \<Longrightarrow> \<not> deleteme (h x)"
  by (auto simp: dispatched_def dest: after_deleted_clean)


subsection \<open>The second loop on a proper list\<close>

lemma static_issueDelete: "static (heap (issueDelete w ed) x) = static (heap ed x)"
  by (simp add: issueDelete_def Let_def)

lemma static_deregistered: "static (heap (deregistered w ed) x) = static (heap ed x)"
  by (simp add: deregistered_def static_issueDelete)

lemma static_fold_deregistered:
  "static (heap (fold deregistered ws ed) x) = static (heap ed x)"
  by (induction ws arbitrary: ed) (simp_all add: static_deregistered)

lemma heap_call_handler [simp]: "heap (snd (call_handler E p ed)) = heap ed"
  by (simp add: call_handler_def Let_def split: WatchType.splits)

lemma heap_processSignalRearm [simp]: "heap (processSignalRearm p r ed) = heap ed"
  by (simp add: processSignalRearm_def)

lemma heap_processFdRearm [simp]: "heap (processFdRearm p r ed) = heap ed"
  by (simp add: processFdRearm_def)

lemma heap_post_handler:
  "heap (post_handler p r ed) = (heap ed)(p := (heap ed p)\<lparr>active := False\<rparr>)"
  by (simp add: post_handler_def Let_def split: WatchType.splits)

lemma static_post_handler: "static (heap (post_handler p r ed) x) = static (heap ed x)"
  by (simp add: heap_post_handler)

lemma static_dispatch_one: "static (heap (dispatch_one E p ed) x) = static (heap ed x)"
  by (simp add: dispatch_one_def Let_def split_def static_post_handler static_fold_deregistered)

lemma wnext_dispatch_one: "wnext (heap (dispatch_one E p ed) x) = wnext (heap ed x)"
  using static_dispatch_one [of E p ed x] by (metis static_fields(1))

lemma static_fold_dispatch:
  "static (heap (fold (dispatch_one E) ps ed) x) = static (heap ed x)"
  by (induction ps arbitrary: ed) (simp_all add: static_dispatch_one)

lemma dispatch_queue_list:
  "wlist (heap ed) q xs \<Longrightarrow> dispatch_queue E q ed = Some (fold (dispatch_one E) xs ed)"
proof (induction xs arbitrary: q ed)
  case Nil
  then show ?case by (subst dispatch_queue.simps) simp
next
  case (Cons x xs)
  let ?ed1 = "dispatch_one E x ed"
  from Cons.prems have q: "q = Some x" and tl: "wlist (heap ed) (wnext (heap ed x)) xs"
    by simp_all
  have "wlist (heap ?ed1) (wnext (heap ed x)) xs = wlist (heap ed) (wnext (heap ed x)) xs"
    by (rule wlist_same_next) (rule wnext_dispatch_one)
  with tl have "wlist (heap ?ed1) (wnext (heap ?ed1 x)) xs"
    by (simp add: wnext_dispatch_one)
  from Cons.IH [OF this] q show ?case
    by (subst dispatch_queue.simps) (simp add: Let_def)
qed

text \<open>
  On a queue that is a proper list, a pass is the first loop over that list followed
  by one turn of the second loop for every watcher of \<open>dispatched\<close>, in this order.
\<close>

lemma processEvents_list:
  assumes "wlist (heap ed) (first ed) xs"
  shows "processEvents E ed =
     (let r = scan_list xs (first ed) False ((emit Lock ed)\<lparr>first := None\<rparr>)
      in Some (fst (snd r),
               fold (dispatch_one E) (dispatched (heap ed) xs) (emit Unlock (snd (snd r)))))"
proof -
  let ?ed2 = "(emit Lock ed)\<lparr>first := None\<rparr>"
  let ?r = "scan_list xs (first ed) False ?ed2"
  have w: "wlist (heap ?ed2) (first ed) xs" using assms by simp
  have scan: "scan_pending (first ed) None (first ed) False ?ed2 = Some ?r"
    using w by (rule scan_pending_list)
  have "wlist (heap (snd (snd ?r))) (fst ?r) (after_deleted (heap ?ed2) xs xs)"
    using w w by (rule scan_list_wlist)
  then have "wlist (heap (emit Unlock (snd (snd ?r)))) (fst ?r) (dispatched (heap ed) xs)"
    by (simp add: dispatched_def)
  then have "dispatch_queue E (fst ?r) (emit Unlock (snd (snd ?r)))
      = Some (fold (dispatch_one E) (dispatched (heap ed) xs) (emit Unlock (snd (snd ?r))))"
    by (rule dispatch_queue_list)
  with scan show ?thesis
    by (simp add: processEvents_def Let_def split_def)
qed

subsection \<open>Flags and kinds during a pass\<close>

lemma watchType_deregistered [simp]:
  "watchType (heap (deregistered w ed) x) = watchType (heap ed x)"
  using static_deregistered [of w ed x] by (metis static_fields(2))

lemma watchType_fold_deregistered [simp]:
  "watchType (heap (fold deregistered ws ed) x) = watchType (heap ed x)"
  using static_fold_deregistered [of ws ed x] by (metis static_fields(2))

lemma watchType_dispatch_one [simp]:
  "watchType (heap (dispatch_one E p ed) x) = watchType (heap ed x)"
  using static_dispatch_one [of E p ed x] by (metis static_fields(2))

lemma deleteme_scan_list:
  "deleteme (heap (snd (snd (scan_list xs pq act ed))) x) = deleteme (heap ed x)"
  by (induction xs arbitrary: pq act ed) simp_all

lemma act_scan_list:
  "fst (snd (scan_list xs pq act ed)) = (act \<or> (\<exists>x\<in>set xs. \<not> deleteme (heap ed x)))"
  by (induction xs arbitrary: pq act ed) auto

text \<open>Only a signal watcher can be marked for deletion by a deregistration.\<close>

lemma deleteme_deregistered:
  "watchType (heap ed x) \<noteq> SIGNAL \<Longrightarrow>
   deleteme (heap (deregistered w ed) x) = deleteme (heap ed x)"
  by (auto simp: deregistered_def issueDelete_def Let_def)

lemma deleteme_fold_deregistered:
  "watchType (heap ed x) \<noteq> SIGNAL \<Longrightarrow>
   deleteme (heap (fold deregistered ws ed) x) = deleteme (heap ed x)"
  by (induction ws arbitrary: ed) (simp_all add: deleteme_deregistered)

lemma deleteme_post_handler:
  "deleteme (heap (post_handler p r ed) x) = deleteme (heap ed x)"
  by (simp add: heap_post_handler)

lemma deleteme_dispatch_one:
  "watchType (heap ed x) \<noteq> SIGNAL \<Longrightarrow>
   deleteme (heap (dispatch_one E p ed) x) = deleteme (heap ed x)"
  by (simp add: dispatch_one_def split_def Let_def deleteme_post_handler
      deleteme_fold_deregistered)

lemma deleteme_fold_dispatch:
  "watchType (heap ed x) \<noteq> SIGNAL \<Longrightarrow>
   deleteme (heap (fold (dispatch_one E) ps ed) x) = deleteme (heap ed x)"
  by (induction ps arbitrary: ed) (simp_all add: deleteme_dispatch_one)

subsection \<open>The calls made on one watcher\<close>











subsection \<open>What a pass leaves untouched\<close>

lemma live_issueDelete [simp]: "live (issueDelete w ed) = live ed"
  by (simp add: issueDelete_def Let_def)

lemma live_deregistered [simp]: "live (deregistered w ed) = live ed"
  by (simp add: deregistered_def)

lemma live_fold_deregistered [simp]: "live (fold deregistered ws ed) = live ed"
  by (induction ws arbitrary: ed) simp_all

lemma live_post_handler [simp]: "live (post_handler p r ed) = live ed"
  by (simp add: post_handler_def Let_def processSignalRearm_def processFdRearm_def
      split: WatchType.splits)

lemma live_dispatch_one [simp]: "live (dispatch_one E p ed) = live ed"
  by (simp add: dispatch_one_def split_def Let_def call_handler_def split: WatchType.splits)

text \<open>
  Both loops, on any queue on which they come to an end: by induction on the
  computation, so that no shape of the queue is assumed.
\<close>

lemma scan_pending_frame:
  assumes "scan_pending q prev pqueue act ed = Some r"
  shows "prev = None \<longrightarrow>
     (\<forall>x. static (heap (snd (snd r)) x) = static (heap ed x)) \<and> live (snd (snd r)) = live ed"
proof (rule scan_pending.raw_induct [where P = "\<lambda>q prev pqueue act ed r. prev = None \<longrightarrow>
     (\<forall>x. static (heap (snd (snd r)) x) = static (heap ed x)) \<and> live (snd (snd r)) = live ed",
      OF _ assms])
  fix scan q prev pqueue act ed r
  assume IH: "\<And>q prev pqueue act ed r. scan q prev pqueue act ed = Some r \<Longrightarrow>
       prev = None \<longrightarrow>
       (\<forall>x. static (heap (snd (snd r)) x) = static (heap ed x)) \<and> live (snd (snd r)) = live ed"
    and eq: "(case q of
        None \<Rightarrow> Some (pqueue, act, ed)
      | Some p \<Rightarrow>
          if deleteme (heap ed p) then
            (let ed1 = watchRemoved p ed in
             case prev of
               Some pr \<Rightarrow>
                 (let ed2 = upd pr (\<lambda>b. b\<lparr>wnext := wnext (heap ed1 p)\<rparr>) ed1
                  in scan (wnext (heap ed2 p)) prev pqueue act ed2)
             | None \<Rightarrow> scan (wnext (heap ed1 p)) prev (wnext (heap ed1 p)) act ed1)
          else
            (let ed1 = upd p (\<lambda>b. b\<lparr>active := True\<rparr>) ed
             in scan (wnext (heap ed1 p)) prev pqueue True ed1)) = Some r"
  show "prev = None \<longrightarrow>
     (\<forall>x. static (heap (snd (snd r)) x) = static (heap ed x)) \<and> live (snd (snd r)) = live ed"
  proof
    assume none: "prev = None"
    show "(\<forall>x. static (heap (snd (snd r)) x) = static (heap ed x)) \<and> live (snd (snd r)) = live ed"
    proof (cases q)
      case None
      with eq show ?thesis by auto
    next
      case (Some p)
      show ?thesis
      proof (cases "deleteme (heap ed p)")
        case True
        with Some none eq
        have "scan (wnext (heap ed p)) None (wnext (heap ed p)) act (watchRemoved p ed) = Some r"
          by (simp add: Let_def)
        from IH [OF this] show ?thesis by simp
      next
        case False
        let ?ed1 = "upd p (\<lambda>b. b\<lparr>active := True\<rparr>) ed"
        from False Some none eq
        have "scan (wnext (heap ?ed1 p)) None pqueue True ?ed1 = Some r"
          by (simp add: Let_def)
        from IH [OF this] show ?thesis by simp
      qed
    qed
  qed
qed

lemma dispatch_queue_frame:
  assumes "dispatch_queue E q ed = Some ed'"
  shows "(\<forall>x. static (heap ed' x) = static (heap ed x)) \<and> live ed' = live ed"
proof (rule dispatch_queue.raw_induct [where P = "\<lambda>E q ed ed'.
     (\<forall>x. static (heap ed' x) = static (heap ed x)) \<and> live ed' = live ed", OF _ assms])
  fix loop E q ed ed'
  assume IH: "\<And>E q ed ed'. loop E q ed = Some ed' \<Longrightarrow>
       (\<forall>x. static (heap ed' x) = static (heap ed x)) \<and> live ed' = live ed"
    and eq: "(case q of
        None \<Rightarrow> Some ed
      | Some p \<Rightarrow>
          (let ed1 = dispatch_one E p ed
           in loop E (wnext (heap ed1 p)) ed1)) = Some ed'"
  show "(\<forall>x. static (heap ed' x) = static (heap ed x)) \<and> live ed' = live ed"
  proof (cases q)
    case None
    with eq show ?thesis by simp
  next
    case (Some p)
    with eq have "loop E (wnext (heap (dispatch_one E p ed) p)) (dispatch_one E p ed) = Some ed'"
      by (simp add: Let_def)
    from IH [OF this] show ?thesis by (simp add: static_dispatch_one)
  qed
qed

lemma processEvents_frame:
  assumes "processEvents E ed = Some (act, ed')"
  shows "static (heap ed' x) = static (heap ed x) \<and> live ed' = live ed"
proof -
  let ?ed2 = "(emit Lock ed)\<lparr>first := None\<rparr>"
  from assms obtain pq a ed3
    where scan: "scan_pending (first ed) None (first ed) False ?ed2 = Some (pq, a, ed3)"
      and loop: "dispatch_queue E pq (emit Unlock ed3) = Some ed'"
    by (auto simp: processEvents_def Let_def split: option.splits)
  from scan_pending_frame [OF scan]
  have 1: "static (heap ed3 x) = static (heap ed x)" "live ed3 = live ed" by simp_all
  from dispatch_queue_frame [OF loop]
  have 2: "static (heap ed' x) = static (heap ed3 x)" "live ed' = live ed3" by simp_all
  from 1 2 show ?thesis by simp
qed

subsection \<open>When run returns\<close>

lemma run_Some_after_active_pass:
  assumes "run E qnode L = Some r"
  shows "case r of
           Inl f \<Rightarrow> True
         | Inr L' \<Rightarrow> \<exists>L0 ed. processEvents E (loop_mech L0) = Some (True, ed)
                       \<and> L' = L0\<lparr>loop_mech := ed\<rparr>"
proof (rule run.raw_induct [where P = "\<lambda>E qnode L r. case r of
           Inl f \<Rightarrow> True
         | Inr L' \<Rightarrow> \<exists>L0 ed. processEvents E (loop_mech L0) = Some (True, ed)
                       \<and> L' = L0\<lparr>loop_mech := ed\<rparr>", OF _ assms])
  fix run' E qnode L r
  assume IH: "\<And>E qnode L r. run' E qnode L = Some r \<Longrightarrow>
        (case r of
           Inl f \<Rightarrow> True
         | Inr L' \<Rightarrow> \<exists>L0 ed. processEvents E (loop_mech L0) = Some (True, ed)
                       \<and> L' = L0\<lparr>loop_mech := ed\<rparr>)"
    and eq: "(case processEvents E (loop_mech L) of None \<Rightarrow> None
      | Some (act, ed) \<Rightarrow>
          if act then Some (Inr (L\<lparr>loop_mech := ed\<rparr>))
          else case poll_once E qnode (L\<lparr>loop_mech := ed\<rparr>) of None \<Rightarrow> None
               | Some (Inl f) \<Rightarrow> Some (Inl f)
               | Some (Inr L') \<Rightarrow> run' E qnode L') = Some r"
  show "case r of
           Inl f \<Rightarrow> True
         | Inr L' \<Rightarrow> \<exists>L0 ed. processEvents E (loop_mech L0) = Some (True, ed)
                       \<and> L' = L0\<lparr>loop_mech := ed\<rparr>"
  proof (cases "processEvents E (loop_mech L)")
    case None
    with eq show ?thesis by simp
  next
    case (Some a)
    note pe = Some
    obtain act ed where a: "a = (act, ed)" by (cases a)
    show ?thesis
    proof (cases act)
      case True
      with pe a eq have "r = Inr (L\<lparr>loop_mech := ed\<rparr>)" by simp
      with pe a True show ?thesis by auto
    next
      case False
      show ?thesis
      proof (cases "poll_once E qnode (L\<lparr>loop_mech := ed\<rparr>)")
        case None
        with pe a False eq show ?thesis by simp
      next
        case (Some b)
        show ?thesis
        proof (cases b)
          case (Inl f)
          with Some pe a False eq show ?thesis by auto
        next
          case (Inr L1)
          with Some pe a False eq have "run' E qnode L1 = Some r" by simp
          then show ?thesis by (rule IH)
        qed
      qed
    qed
  qed
qed

subsection \<open>Evaluating the examples\<close>

lemmas eval_dispatch =
  no_events_def issueDelete_def deregistered_def receiveSignal_def receiveFdEvent_def receiveChildStat_def
  Let_def upd_def emit_def new_watcher_def watchRemoved_def processEvents_def
  scan_pending.simps dispatch_queue.simps dispatch_one_def call_handler_def post_handler_def
  processSignalRearm_def processFdRearm_def quiet_def

lemma processEvents_pending_loop:
  "processEvents quiet (loop_mech pending_loop) = Some (True, after_signal)"
  by (simp add: pending_loop_def idle_loop_def after_signal_def eval_dispatch)

lemma processEvents_idle_loop:
  "processEvents one_signal (loop_mech idle_loop) = Some (False, emit Unlock (emit Lock no_events))"
  by (simp add: one_signal_def idle_loop_def eval_dispatch)

section \<open>The claims\<close>

subsection \<open>issueDelete and the default watchRemoved\<close>

text \<open>
  Claim C8.  \<^verbatim>\<open>issueDelete(w)\<close> takes the dispatch lock, sets \<^verbatim>\<open>deleteme\<close> of \<open>w\<close> when \<open>w\<close>
  is active and calls \<^verbatim>\<open>watchRemoved\<close> of \<open>w\<close> at once when it is not, and releases the
  lock; nothing else changes.  In particular the calls it makes do not include
  \<^verbatim>\<open>watchRemoved\<close> of a watcher that is active.
\<close>

theorem issueDelete_effect:
  "issueDelete w ed =
     (if active (heap ed w)
      then ed\<lparr>heap := (heap ed)(w := (heap ed w)\<lparr>deleteme := True\<rparr>),
              trace := trace ed @ [Lock, Unlock]\<rparr>
      else ed\<lparr>trace := trace ed @ [Lock, WatchRemoved w, Unlock]\<rparr>)
   \<and> (active (heap ed w) \<longrightarrow>
        WatchRemoved w \<notin> set (drop (length (trace ed)) (trace (issueDelete w ed))))"
  by (simp add: issueDelete_def Let_def emit_def upd_def watchRemoved_def)

text \<open>
  In \<open>two_signals\<close> watcher 1 is active: deregistering it only sets its flag.
\<close>

theorem issueDelete_effect_witness:
  "active (heap two_signals 1)
   \<and> deleteme (heap (issueDelete 1 two_signals) 1)
   \<and> trace (issueDelete 1 two_signals) = trace two_signals @ [Lock, Unlock]
   \<and> WatchRemoved 1 \<notin> set (drop (length (trace two_signals)) (trace (issueDelete 1 two_signals)))"
proof -
  have a: "active (heap two_signals 1)"
    by (simp add: two_signals_def eval_dispatch)
  from issueDelete_effect [of 1 two_signals] a show ?thesis by simp
qed


text \<open>
  Claim C10 says that removing a watcher never modifies its storage.  It does, in both of
  the ways the claim names.  Deregistering the active watcher 1 of \<open>two_signals\<close> changes
  the watcher: \<^verbatim>\<open>issueDelete\<close> sets its \<^verbatim>\<open>deleteme\<close>.  And in the pass over the queue of
  \<open>pending_loop\<close> with a handler that returns \<^verbatim>\<open>REMOVE\<close>, the turn that calls
  \<^verbatim>\<open>watchRemoved\<close> of watcher 1 also clears its \<^verbatim>\<open>active\<close>, which was set before the pass.
\<close>

theorem removal_writes_flags:
  "heap (issueDelete 1 two_signals) 1 \<noteq> heap two_signals 1
   \<and> map_option (\<lambda>(act, ed). (WatchRemoved 1 \<in> set (trace ed),
                                active (heap (loop_mech pending_loop) 1), active (heap ed 1)))
       (processEvents removing (loop_mech pending_loop))
     = Some (True, True, False)"
  by (simp add: two_signals_def pending_loop_def idle_loop_def removing_def eval_dispatch)

text \<open>
  Claim C10 as amended.  The default \<^verbatim>\<open>watchRemoved\<close> changes nothing at all: not the
  watchers, not the pending queue, not the set of allocated watchers.  Neither way of
  removing a watcher frees a watcher or changes a field of any watcher \<open>x\<close> other than
  the flags \<^verbatim>\<open>active\<close> and \<^verbatim>\<open>deleteme\<close>: not \<^verbatim>\<open>issueDelete\<close>, not a completed
  \<^verbatim>\<open>deregisterSignal\<close>, and not a pass of \<^verbatim>\<open>processEvents\<close> that returns, whatever the
  handlers return and whatever is deregistered while they run.
\<close>

theorem removal_keeps_storage:
  "heap (watchRemoved w ed) = heap ed
   \<and> first (watchRemoved w ed) = first ed
   \<and> live (watchRemoved w ed) = live ed
   \<and> static (heap (issueDelete w ed) x) = static (heap ed x)
   \<and> live (issueDelete w ed) = live ed
   \<and> static (heap (deregistered w ed) x) = static (heap ed x)
   \<and> live (deregistered w ed) = live ed
   \<and> (processEvents E ed = Some (act, ed') \<longrightarrow>
        static (heap ed' x) = static (heap ed x) \<and> live ed' = live ed)"
  by (simp add: static_issueDelete static_deregistered processEvents_frame)

text \<open>
  The pass over the queue of \<open>pending_loop\<close> with handlers that return \<^verbatim>\<open>REMOVE\<close> calls
  \<^verbatim>\<open>watchRemoved\<close> of watcher 1.
\<close>

theorem removal_keeps_storage_witness:
  "\<exists>ed'. processEvents removing (loop_mech pending_loop) = Some (True, ed')
     \<and> WatchRemoved 1 \<in> set (trace ed')
     \<and> static (heap ed' 1) = static (heap (loop_mech pending_loop) 1)
     \<and> live ed' = live (loop_mech pending_loop)"
proof -
  have "\<exists>ed'. processEvents removing (loop_mech pending_loop) = Some (True, ed')
     \<and> WatchRemoved 1 \<in> set (trace ed')"
    by (simp add: pending_loop_def idle_loop_def removing_def eval_dispatch)
  then obtain ed' where p: "processEvents removing (loop_mech pending_loop) = Some (True, ed')"
    and t: "WatchRemoved 1 \<in> set (trace ed')" by blast
  from removal_keeps_storage [of 1 "loop_mech pending_loop" 1 removing True ed'] p
  have "static (heap ed' 1) = static (heap (loop_mech pending_loop) 1)
     \<and> live ed' = live (loop_mech pending_loop)" by blast
  with p t show ?thesis by blast
qed

subsection \<open>The first loop of processEvents\<close>

text \<open>
  Claim C2 says that the first phase keeps exactly the watchers whose \<^verbatim>\<open>deleteme\<close> is
  unset, in their order.  It does not: in \<open>two_signals\<close> the queue is watcher 1 (not marked)
  followed by watcher 2 (marked).  The loop marks watcher 1 active and reports
  activity, calls \<^verbatim>\<open>watchRemoved\<close> of watcher 2, and leaves \<open>pqueue\<close> null: watcher 1 is
  dropped with the marked one.  The pass then calls no handler at all.
\<close>

theorem scan_pending_loses_watcher:
  "wlist (heap two_signals) (first two_signals) [1, 2]
   \<and> \<not> deleteme (heap two_signals 1) \<and> deleteme (heap two_signals 2)
   \<and> map_option (\<lambda>(pqueue, act, ed). (pqueue, act, active (heap ed 1), deleteme (heap ed 1)))
     (scan_pending (first two_signals) None (first two_signals) False two_signals)
     = Some (None, True, True, False)
   \<and> map_option (\<lambda>(act, ed). (act, trace ed)) (processEvents quiet two_signals)
     = Some (True, [Lock, Unlock, Lock, WatchRemoved 2, Unlock])"
  by (simp add: two_signals_def eval_dispatch)

text \<open>
  Claim C5 says that a watcher whose \<^verbatim>\<open>deleteme\<close> is set has \<^verbatim>\<open>watchRemoved\<close> called once
  by the next pass.  After the pass over \<open>two_signals\<close> watcher 1 is active and in no
  queue.  Deregistering it now sets its \<^verbatim>\<open>deleteme\<close>; the next pass and the one after it
  return false and make no call on watcher 1.
\<close>

theorem deleteme_watcher_never_removed:
  "map_option (\<lambda>(act, ed). (act, deleteme (heap ed 1), filter (concerns 1) (trace ed)))
     (then_deregister_and_pass quiet 1 (processEvents quiet two_signals))
     = Some (False, True, [])
   \<and> map_option (\<lambda>(act, ed). (act, deleteme (heap ed 1), filter (concerns 1) (trace ed)))
     (then_pass quiet (then_deregister_and_pass quiet 1 (processEvents quiet two_signals)))
     = Some (False, True, [])"
  by (simp add: two_signals_def eval_dispatch then_pass_def then_deregister_and_pass_def)

subsection \<open>The wait queue\<close>

text \<open>
  Claim C3 says that \<^verbatim>\<open>queue\<close> appends at the tail and loses no node.  \<^verbatim>\<open>tail\<close> is never
  assigned, so \<^verbatim>\<open>queue\<close> always overwrites \<^verbatim>\<open>head\<close>: after \<^verbatim>\<open>queue(1)\<close> and \<^verbatim>\<open>queue(2)\<close> on
  an empty queue the head is node 2, node 1 is linked from nowhere, and one \<^verbatim>\<open>unqueue\<close>
  empties the queue.
\<close>

theorem queue_overwrites_head:
  "(case queue 1 empty_waitqueue (\<lambda>n. None) of (wq, nx) \<Rightarrow> queue 2 wq nx)
     = (\<lparr>tail = None, head = Some 2\<rparr>, (\<lambda>n. None))
   \<and> unqueue \<lparr>tail = None, head = Some 2\<rparr> (\<lambda>n. None)
     = Inr (None, \<lparr>tail = None, head = None\<rparr>)"
  by (simp add: queue_def unqueue_def empty_waitqueue_def)

subsection \<open>The pselect backend\<close>

text \<open>
  Claim C4 says that \<^verbatim>\<open>pull_events\<close> calls the \<^verbatim>\<open>receive\<close> functions only with the lock
  held.  With signal 10 watched, let the signal arrive during \<^verbatim>\<open>pselect\<close> and the second
  \<^verbatim>\<open>pselect\<close> return 0.  The calls are then those of \<^verbatim>\<open>add_signal_watch\<close> (which takes and
  releases the lock), \<^verbatim>\<open>pselect\<close>, \<^verbatim>\<open>receive_signal\<close> and \<^verbatim>\<open>pselect\<close>: the lock is not held
  when \<^verbatim>\<open>receive_signal\<close> is called.
\<close>

theorem receive_signal_without_lock:
  "map_option calls
     (pull_events (\<lambda>signo. True) 1 2 [Interrupted 10, Returned 0 {} {} {}] True
        (add_signal_watch 10 (Some 7) select_events_init))
     = Some [Lock_guard, Unlock_guard, Pselect True, Receive_signal 10 (Some 7), Pselect False]
   \<and> \<not> receives_locked False
         [Lock_guard, Unlock_guard, Pselect True, Receive_signal 10 (Some 7), Pselect False]"
  by (simp add: add_signal_watch_def add_signal_watch_nolock_def select_events_init_def
      called_def Let_def)

text \<open>
  Claim C9 says that a failing \<^verbatim>\<open>add_fd_watch\<close> leaves the watch state unchanged.  On a
  fresh backend, registering descriptor 5 for reading when the user data vector cannot
  grow throws \<^verbatim>\<open>std::bad_alloc\<close> after \<^verbatim>\<open>FD_SET\<close>: descriptor 5 stays in the read set.
\<close>

theorem add_fd_watch_failure_keeps_fd:
  "add_fd_watch (\<lambda>n. False) 1 5 (Some 7) 1 True False select_events_init
     = (Inl Bad_alloc, select_events_init\<lparr>read_set := {5}\<rparr>)
   \<and> read_set (snd (add_fd_watch (\<lambda>n. False) 1 5 (Some 7) 1 True False select_events_init))
     \<noteq> read_set select_events_init"
  by (simp add: add_fd_watch_def resize_def select_events_init_def Let_def)

subsection \<open>run\<close>

text \<open>
  Claim C1 says that \<^verbatim>\<open>run\<close> never returns.  It does: on a loop with nothing pending,
  whose backend delivers signal 10 for watcher 1, \<^verbatim>\<open>run\<close> makes a pass that finds nothing,
  polls, makes a second pass that calls the handler, and returns.
\<close>

theorem run_returns:
  "map_option (map_sum id (\<lambda>L. trace (loop_mech L))) (run one_signal 0 idle_loop)
     = Some (Inr [Lock, Unlock, PullEvents True, Lock, Unlock, GotSignal 1 10, Lock, Unlock])"
  by (simp add: run.simps one_signal_def idle_loop_def empty_waitqueue_def poll_once_def
      getPollwaitLock_def releaseLock_def queue_def unqueue_def getHead_def pullEvents_def
      deliver_def eval_dispatch)

text \<open>
  Claim C1 as amended.  \<^verbatim>\<open>run\<close> loops only while \<^verbatim>\<open>processEvents\<close> returns false.  When a
  pass returns true, \<^verbatim>\<open>run\<close> returns at once, in the state the pass left.  When a pass
  returns false, \<^verbatim>\<open>run\<close> resets the link of its queue node, takes the poll lock with
  \<^verbatim>\<open>getPollwaitLock\<close>, calls \<^verbatim>\<open>pullEvents(true)\<close> of the backend on the state the pass
  left, releases the lock with \<^verbatim>\<open>releaseLock\<close> and starts over with the state so reached
  (or fails where \<^verbatim>\<open>releaseLock\<close> fails, and does not return where the lock is never
  granted); with both wait queues empty the lock is granted at once, and \<^verbatim>\<open>run\<close>
  continues as from the state after the poll.  Whenever \<^verbatim>\<open>run\<close> returns, it does so
  right after a pass that returned true.  And on a pending queue that is a proper list
  \<open>xs\<close> a pass does return, and returns true exactly when some watcher of \<open>xs\<close> does not
  have \<^verbatim>\<open>deleteme\<close> set.
\<close>

theorem run_returns_after_active_pass:
  "(processEvents E (loop_mech L) = Some (True, ed) \<longrightarrow>
      run E qnode L = Some (Inr (L\<lparr>loop_mech := ed\<rparr>)))
   \<and> (processEvents E (loop_mech L) = Some (False, ed) \<longrightarrow>
      run E qnode L =
        (case getPollwaitLock qnode (L\<lparr>loop_mech := ed, qnext := (qnext L)(qnode := None)\<rparr>) of
           None \<Rightarrow> None
         | Some L2 \<Rightarrow>
             (case releaseLock qnode (L2\<lparr>loop_mech := pullEvents E True (loop_mech L2)\<rparr>) of
                Inl f \<Rightarrow> Some (Inl f)
              | Inr L' \<Rightarrow> run E qnode L')))
   \<and> (processEvents E (loop_mech L) = Some (False, ed)
        \<and> attn_waitqueue L = empty_waitqueue \<and> wait_waitqueue L = empty_waitqueue \<longrightarrow>
      run E qnode L =
        run E qnode (L\<lparr>loop_mech := pullEvents E True ed, qnext := (qnext L)(qnode := None)\<rparr>))
   \<and> (run E qnode L = Some (Inr L') \<longrightarrow>
      (\<exists>L0 ed0. processEvents E (loop_mech L0) = Some (True, ed0) \<and> L' = L0\<lparr>loop_mech := ed0\<rparr>))
   \<and> (wlist (heap (loop_mech L)) (first (loop_mech L)) xs \<longrightarrow>
      (\<exists>act ed1. processEvents E (loop_mech L) = Some (act, ed1)
         \<and> act = (\<exists>x\<in>set xs. \<not> deleteme (heap (loop_mech L) x))))"
proof (intro conjI impI)
  assume "processEvents E (loop_mech L) = Some (True, ed)"
  with run.simps [of E qnode L]
  show "run E qnode L = Some (Inr (L\<lparr>loop_mech := ed\<rparr>))" by simp
next
  assume "processEvents E (loop_mech L) = Some (False, ed)"
  with run.simps [of E qnode L]
  show "run E qnode L =
        (case getPollwaitLock qnode (L\<lparr>loop_mech := ed, qnext := (qnext L)(qnode := None)\<rparr>) of
           None \<Rightarrow> None
         | Some L2 \<Rightarrow>
             (case releaseLock qnode (L2\<lparr>loop_mech := pullEvents E True (loop_mech L2)\<rparr>) of
                Inl f \<Rightarrow> Some (Inl f)
              | Inr L' \<Rightarrow> run E qnode L'))"
    by (simp add: poll_once_def Let_def split: option.splits sum.splits)
next
  assume a: "processEvents E (loop_mech L) = Some (False, ed)
        \<and> attn_waitqueue L = empty_waitqueue \<and> wait_waitqueue L = empty_waitqueue"
  let ?L' = "L\<lparr>loop_mech := pullEvents E True ed, qnext := (qnext L)(qnode := None)\<rparr>"
  have "poll_once E qnode (L\<lparr>loop_mech := ed\<rparr>) = Some (Inr ?L')"
    using a by (simp add: poll_once_def getPollwaitLock_def releaseLock_def queue_def
        unqueue_def getHead_def empty_waitqueue_def Let_def)
  with a run.simps [of E qnode L] show "run E qnode L = run E qnode ?L'" by simp
next
  assume "run E qnode L = Some (Inr L')"
  from run_Some_after_active_pass [OF this]
  show "\<exists>L0 ed0. processEvents E (loop_mech L0) = Some (True, ed0) \<and> L' = L0\<lparr>loop_mech := ed0\<rparr>"
    by simp
next
  assume "wlist (heap (loop_mech L)) (first (loop_mech L)) xs"
  from processEvents_list [OF this, of E]
  show "\<exists>act ed1. processEvents E (loop_mech L) = Some (act, ed1)
         \<and> act = (\<exists>x\<in>set xs. \<not> deleteme (heap (loop_mech L) x))"
    by (simp add: Let_def act_scan_list)
qed

text \<open>
  In \<open>pending_loop\<close> signal 10 is pending for watcher 1, which is not marked for
  deletion: the pass returns true and \<^verbatim>\<open>run\<close> returns.  In \<open>idle_loop\<close> nothing is
  pending and both wait queues are empty: the pass returns false and \<^verbatim>\<open>run\<close> goes on from
  the state after the poll.
\<close>

theorem run_returns_after_active_pass_witness:
  "processEvents quiet (loop_mech pending_loop) = Some (True, after_signal)
   \<and> run quiet 0 pending_loop = Some (Inr (pending_loop\<lparr>loop_mech := after_signal\<rparr>))
   \<and> processEvents one_signal (loop_mech idle_loop) = Some (False, emit Unlock (emit Lock no_events))
   \<and> attn_waitqueue idle_loop = empty_waitqueue \<and> wait_waitqueue idle_loop = empty_waitqueue
   \<and> run one_signal 0 idle_loop =
       run one_signal 0
         (idle_loop\<lparr>loop_mech := pullEvents one_signal True (emit Unlock (emit Lock no_events)),
                    qnext := (qnext idle_loop)(0 := None)\<rparr>)
   \<and> (\<exists>L0 ed0. processEvents quiet (loop_mech L0) = Some (True, ed0)
        \<and> pending_loop\<lparr>loop_mech := after_signal\<rparr> = L0\<lparr>loop_mech := ed0\<rparr>)
   \<and> wlist (heap (loop_mech pending_loop)) (first (loop_mech pending_loop)) [1]
   \<and> (\<exists>x\<in>set [1]. \<not> deleteme (heap (loop_mech pending_loop) x))"
proof -
  note a = run_returns_after_active_pass [of quiet pending_loop after_signal 0
      "pending_loop\<lparr>loop_mech := after_signal\<rparr>" "[1]"]
  note b = run_returns_after_active_pass [of one_signal idle_loop
      "emit Unlock (emit Lock no_events)" 0]
  have q: "attn_waitqueue idle_loop = empty_waitqueue" "wait_waitqueue idle_loop = empty_waitqueue"
    by (simp_all add: idle_loop_def)
  have w: "wlist (heap (loop_mech pending_loop)) (first (loop_mech pending_loop)) [1]"
    by (simp add: pending_loop_def idle_loop_def eval_dispatch)
  from a processEvents_pending_loop
  have r: "run quiet 0 pending_loop = Some (Inr (pending_loop\<lparr>loop_mech := after_signal\<rparr>))"
    by blast
  with a have e: "\<exists>L0 ed0. processEvents quiet (loop_mech L0) = Some (True, ed0)
        \<and> pending_loop\<lparr>loop_mech := after_signal\<rparr> = L0\<lparr>loop_mech := ed0\<rparr>" by blast
  from a w processEvents_pending_loop
  have u: "\<exists>x\<in>set [1]. \<not> deleteme (heap (loop_mech pending_loop) x)" by auto
  from b processEvents_idle_loop q have p: "run one_signal 0 idle_loop =
       run one_signal 0
         (idle_loop\<lparr>loop_mech := pullEvents one_signal True (emit Unlock (emit Lock no_events)),
                    qnext := (qnext idle_loop)(0 := None)\<rparr>)" by blast
  from r e u p q w processEvents_pending_loop processEvents_idle_loop show ?thesis by blast
qed

subsection \<open>The second loop of processEvents\<close>

text \<open>
  Claim C6.  Let the pending queue be a proper list \<open>xs\<close>, and let the second loop
  visit the watchers \<open>pre\<close>, then the descriptor watcher \<open>p\<close>, then \<open>post\<close>.  The pass
  then returns, and it is the first phase, the turns of \<open>pre\<close>, the turn of \<open>p\<close> and the
  turns of \<open>post\<close>.  The turn of \<open>p\<close> is the call of \<^verbatim>\<open>gotEvent\<close> with the descriptor
  and the event flags stored in \<open>p\<close>, returning \<open>r\<close>; the calls of \<^verbatim>\<open>deregisterSignal\<close>
  that complete while the handler runs, reaching \<open>ed2\<close>; and the locked part.  Between
  taking and releasing the lock, the locked part makes the one call
  \<^verbatim>\<open>enableFdWatch_nolock\<close> with the descriptor and the stored flags of \<open>p\<close> when \<open>r\<close> is
  \<^verbatim>\<open>REARM\<close>; no call at all when \<open>r\<close> is \<^verbatim>\<open>DISARM\<close>; and \<^verbatim>\<open>removeFdWatch_nolock\<close> followed
  by \<^verbatim>\<open>watchRemoved\<close> of \<open>p\<close> when \<open>r\<close> is \<^verbatim>\<open>REMOVE\<close>.  The handlers are arbitrary, and
  so are the deregistrations that complete during the pass.
\<close>

theorem fd_rearm_law:
  assumes "wlist (heap ed) (first ed) xs"
    and "dispatched (heap ed) xs = pre @ p # post"
    and "watchType (heap ed p) = FD"
  shows "\<exists>pqueue act ed1.
     scan_pending (first ed) None (first ed) False ((emit Lock ed)\<lparr>first := None\<rparr>)
       = Some (pqueue, act, ed1)
     \<and> (let edp = fold (dispatch_one E) pre (emit Unlock ed1);
             fd = watch_fd (heap ed p);
             r = gotEvent E edp p fd (event_flags (heap ed p));
             ed2 = fold deregistered (meanwhile E edp p)
                     (emit (GotEvent p fd (event_flags (heap ed p))) edp)
         in processEvents E ed = Some (act, fold (dispatch_one E) post (dispatch_one E p edp))
            \<and> dispatch_one E p edp = post_handler p r ed2
            \<and> trace (post_handler p r ed2) = trace ed2 @
                 (case r of
                    REARM \<Rightarrow> [Lock, EnableFdWatch_nolock fd p (watch_flags (heap ed p)), Unlock]
                  | DISARM \<Rightarrow> [Lock, Unlock]
                  | REMOVE \<Rightarrow> [Lock, RemoveFdWatch_nolock fd, WatchRemoved p, Unlock]))"
proof -
  let ?r = "scan_list xs (first ed) False ((emit Lock ed)\<lparr>first := None\<rparr>)"
  let ?ed1 = "snd (snd ?r)"
  let ?edp = "fold (dispatch_one E) pre (emit Unlock ?ed1)"
  let ?fd = "watch_fd (heap ed p)"
  let ?ev = "event_flags (heap ed p)"
  let ?ret = "gotEvent E ?edp p ?fd ?ev"
  let ?e = "emit (GotEvent p ?fd ?ev) ?edp"
  let ?ed2 = "fold deregistered (meanwhile E ?edp p) ?e"
  have "wlist (heap ((emit Lock ed)\<lparr>first := None\<rparr>)) (first ed) xs"
    using assms(1) by simp
  then have scan: "scan_pending (first ed) None (first ed) False ((emit Lock ed)\<lparr>first := None\<rparr>)
      = Some (fst ?r, fst (snd ?r), ?ed1)"
    by (simp add: scan_pending_list)
  have pe: "processEvents E ed
      = Some (fst (snd ?r), fold (dispatch_one E) post (dispatch_one E p ?edp))"
    using processEvents_list [OF assms(1), of E] by (simp add: Let_def assms(2))
  have st: "static (heap ?edp p) = static (heap ed p)"
    by (simp add: static_fold_dispatch static_scan_list)
  have "watchType (static (heap ?edp p)) = watchType (static (heap ed p))"
    "watch_fd (static (heap ?edp p)) = watch_fd (static (heap ed p))"
    "watch_flags (static (heap ?edp p)) = watch_flags (static (heap ed p))"
    "event_flags (static (heap ?edp p)) = event_flags (static (heap ed p))"
    by (simp_all only: st)
  then have same: "watchType (heap ?edp p) = FD" "watch_fd (heap ?edp p) = ?fd"
    "watch_flags (heap ?edp p) = watch_flags (heap ed p)" "event_flags (heap ?edp p) = ?ev"
    using assms(3) by simp_all
  have "p \<in> set (dispatched (heap ed) xs)" by (simp add: assms(2))
  then have "\<not> deleteme (heap ed p)" by (rule dispatched_clean)
  moreover have "watchType (heap (emit Unlock ?ed1) p) \<noteq> SIGNAL"
  proof -
    have "watchType (static (heap (emit Unlock ?ed1) p)) = watchType (static (heap ed p))"
      by (simp add: static_scan_list)
    with assms(3) show ?thesis by simp
  qed
  ultimately have nd: "\<not> deleteme (heap ?edp p)"
    by (simp add: deleteme_fold_dispatch deleteme_scan_list)
  have ch: "call_handler E p ?edp = (?ret, ?e)"
    using same by (simp add: call_handler_def Let_def)
  have d: "dispatch_one E p ?edp = post_handler p ?ret ?ed2"
    by (simp add: dispatch_one_def ch Let_def)
  have st2: "static (heap ?ed2 p) = static (heap ?edp p)"
    by (simp add: static_fold_deregistered)
  have "watch_fd (static (heap ?ed2 p)) = watch_fd (static (heap ?edp p))"
    "watch_flags (static (heap ?ed2 p)) = watch_flags (static (heap ?edp p))"
    by (simp_all only: st2)
  then have same2: "watchType (heap ?ed2 p) = FD" "watch_fd (heap ?ed2 p) = ?fd"
    "watch_flags (heap ?ed2 p) = watch_flags (heap ed p)"
    using same by simp_all
  have "watchType (heap ?e p) \<noteq> SIGNAL" using same by simp
  then have "deleteme (heap ?ed2 p) = deleteme (heap ?e p)"
    by (rule deleteme_fold_deregistered)
  with nd have nd2: "\<not> deleteme (heap ?ed2 p)" by simp
  have t: "trace (post_handler p ?ret ?ed2) = trace ?ed2 @
                 (case ?ret of
                    REARM \<Rightarrow> [Lock, EnableFdWatch_nolock ?fd p (watch_flags (heap ed p)), Unlock]
                  | DISARM \<Rightarrow> [Lock, Unlock]
                  | REMOVE \<Rightarrow> [Lock, RemoveFdWatch_nolock ?fd, WatchRemoved p, Unlock])"
    using same2 nd2 by (cases ?ret) (simp_all add: post_handler_def Let_def processFdRearm_def)
  show ?thesis
    unfolding Let_def
    by (rule exI [of _ "fst ?r"], rule exI [of _ "fst (snd ?r)"], rule exI [of _ ?ed1],
        intro conjI, rule scan, rule pe, rule d, rule t)
qed

text \<open>
  In \<open>fd_and_signal\<close> the queue is the descriptor watcher 4 followed by the signal
  watcher 1.  The passes with a handler that returns \<^verbatim>\<open>REARM\<close> (while watcher 1 is
  deregistered), \<^verbatim>\<open>DISARM\<close> and \<^verbatim>\<open>REMOVE\<close>.
\<close>

theorem fd_rearm_law_witness:
  "wlist (heap fd_and_signal) (first fd_and_signal) [4, 1]
   \<and> dispatched (heap fd_and_signal) [4, 1] = [] @ 4 # [1]
   \<and> watchType (heap fd_and_signal 4) = FD
   \<and> map_option (\<lambda>(act, ed). trace ed) (processEvents deregistering fd_and_signal)
     = Some [Lock, Unlock,
             GotEvent 4 5 1, RemoveSignalWatch 10, Lock, Unlock,
             Lock, EnableFdWatch_nolock 5 4 1, Unlock,
             GotSignal 1 10, Lock, RemoveSignalWatch_nolock 10, WatchRemoved 1, Unlock]
   \<and> map_option (\<lambda>(act, ed). trace ed) (processEvents disarming fd_and_signal)
     = Some [Lock, Unlock, GotEvent 4 5 1, Lock, Unlock, GotSignal 1 10, Lock, Unlock]
   \<and> map_option (\<lambda>(act, ed). trace ed) (processEvents removing fd_and_signal)
     = Some [Lock, Unlock,
             GotEvent 4 5 1, Lock, RemoveFdWatch_nolock 5, WatchRemoved 4, Unlock,
             GotSignal 1 10, Lock, RemoveSignalWatch_nolock 10, WatchRemoved 1, Unlock]"
proof -
  have a: "wlist (heap fd_and_signal) (first fd_and_signal) [4, 1]"
    by (simp add: fd_and_signal_def eval_dispatch)
  have b: "dispatched (heap fd_and_signal) [4, 1] = [] @ 4 # [1]"
    by (simp add: dispatched_def fd_and_signal_def eval_dispatch)
  have c: "watchType (heap fd_and_signal 4) = FD"
    by (simp add: fd_and_signal_def eval_dispatch)
  note law = fd_rearm_law [OF a b c]
  from law [of deregistering]
  have 1: "map_option (\<lambda>(act, ed). trace ed) (processEvents deregistering fd_and_signal)
     = Some [Lock, Unlock,
             GotEvent 4 5 1, RemoveSignalWatch 10, Lock, Unlock,
             Lock, EnableFdWatch_nolock 5 4 1, Unlock,
             GotSignal 1 10, Lock, RemoveSignalWatch_nolock 10, WatchRemoved 1, Unlock]"
    by (simp add: fd_and_signal_def deregistering_def eval_dispatch)
  from law [of disarming]
  have 2: "map_option (\<lambda>(act, ed). trace ed) (processEvents disarming fd_and_signal)
     = Some [Lock, Unlock, GotEvent 4 5 1, Lock, Unlock, GotSignal 1 10, Lock, Unlock]"
    by (simp add: fd_and_signal_def disarming_def eval_dispatch)
  from law [of removing]
  have 3: "map_option (\<lambda>(act, ed). trace ed) (processEvents removing fd_and_signal)
     = Some [Lock, Unlock,
             GotEvent 4 5 1, Lock, RemoveFdWatch_nolock 5, WatchRemoved 4, Unlock,
             GotSignal 1 10, Lock, RemoveSignalWatch_nolock 10, WatchRemoved 1, Unlock]"
    by (simp add: fd_and_signal_def removing_def eval_dispatch)
  from a b c 1 2 3 show ?thesis by blast
qed



end
